theory Spec2Isabelle
  imports Complex_Main "HOL-Library.Sublist" "HOL-Library.Multiset"
begin

section \<open>Data model\<close>

text \<open>
  A row of the processed transaction table (\<open>file_handler.process_transactions\<close>).
  Currency values are Python floats in the source; they are modelled as exact rationals,
  so the rounding error of IEEE doubles is outside the model.  Descriptions are ASCII
  strings.
\<close>

datatype ttype = Expense | Revenue | Zero

datatype mstatus = Unmatched | Matched | Pending_review

record transaction =
  original_index :: int
  amount :: rat
  description :: string
  transaction_type :: ttype
  abs_amount :: rat
  match_status :: mstatus
  match_group_id :: "nat option"
  match_confidence :: "rat option"

text \<open>
  A match dictionary.  \<open>match.get("revenue")\<close> may be absent, hence the option.
\<close>

record match_group =
  match_type :: string
  confidence :: rat
  revenue :: "transaction option"
  expenses :: "transaction list"
  balance :: rat

text \<open>The part of \<open>config.Config\<close> that the matching engine reads.\<close>

record config =
  FUZZY_MATCH_THRESHOLD :: rat
  KEYWORD_MIN_LENGTH :: nat
  BALANCE_TOLERANCE :: rat
  STOPWORDS :: "string list"

definition Config :: config where
  "Config = \<lparr> FUZZY_MATCH_THRESHOLD = 80 / 100, KEYWORD_MIN_LENGTH = 3,
     BALANCE_TOLERANCE = 1 / 100,
     STOPWORDS = [''to'', ''from'', ''for'', ''the'', ''and'', ''or'', ''in'', ''at'', ''by'',
       ''invoice'', ''payment'', ''receipt'', ''transaction'', ''bill'', ''ref''] \<rparr>"

section \<open>Python string primitives (ASCII)\<close>

text \<open>
  \<open>str.lower\<close>, \<open>str.strip\<close>, \<open>str.split\<close> and the regular expression classes
  \<open>\w\<close> and \<open>\s\<close>, restricted to ASCII text.
\<close>

definition ascii_uppercase :: string where
  "ascii_uppercase = ''ABCDEFGHIJKLMNOPQRSTUVWXYZ''"

definition ascii_lowercase :: string where
  "ascii_lowercase = ''abcdefghijklmnopqrstuvwxyz''"

definition digits :: string where
  "digits = ''0123456789''"

definition lower_char :: "char \<Rightarrow> char" where
  "lower_char c = (case map_of (zip ascii_uppercase ascii_lowercase) c of
                     None \<Rightarrow> c | Some d \<Rightarrow> d)"

definition str_lower :: "string \<Rightarrow> string" where
  "str_lower s = map lower_char s"

definition isspace :: "char \<Rightarrow> bool" where
  "isspace c = (c \<in> set [CHR 0x09, CHR 0x0A, CHR 0x0B, CHR 0x0C, CHR 0x0D,
                          CHR 0x1C, CHR 0x1D, CHR 0x1E, CHR 0x1F, CHR '' ''])"

definition isword :: "char \<Rightarrow> bool" where
  "isword c = (c \<in> set (ascii_lowercase @ ascii_uppercase @ digits @ ''_''))"

definition str_strip :: "string \<Rightarrow> string" where
  "str_strip s = rev (dropWhile isspace (rev (dropWhile isspace s)))"

text \<open>\<open>s.split()\<close>: the maximal runs of non-whitespace; the first argument is the run being read.\<close>

fun split_run :: "string \<Rightarrow> string \<Rightarrow> string list" where
  "split_run w [] = (if w = [] then [] else [w])"
| "split_run w (c # cs) =
     (if isspace c then (if w = [] then split_run [] cs else w # split_run [] cs)
      else split_run (w @ [c]) cs)"

definition str_split :: "string \<Rightarrow> string list" where
  "str_split s = split_run [] s"

text \<open>\<open>re.sub(r"[^\w\s]", " ", text)\<close>\<close>

definition sub_special :: "string \<Rightarrow> string" where
  "sub_special s = map (\<lambda>c. if isword c \<or> isspace c then c else CHR '' '') s"

section \<open>Balance calculator\<close>

text \<open>\<open>BalanceCalculator.calculate_match_balance\<close>; a missing revenue counts as amount 0.\<close>

definition calculate_match_balance :: "match_group \<Rightarrow> rat" where
  "calculate_match_balance m =
     (let revenue_amount = (case revenue m of None \<Rightarrow> 0 | Some r \<Rightarrow> amount r);
          expense_total = sum_list (map amount (expenses m))
      in revenue_amount + expense_total)"

definition is_balanced :: "config \<Rightarrow> match_group \<Rightarrow> bool" where
  "is_balanced cfg m = (\<bar>calculate_match_balance m\<bar> < BALANCE_TOLERANCE cfg)"

text \<open>
  The messages of \<open>validate_match\<close>.  \<open>Not_balanced b\<close> stands for the text
  \<open>"Match not balanced. Balance: {b:.2f}"\<close>.
\<close>

datatype vmessage = No_revenue | No_expenses | Not_balanced rat | Match_is_valid

definition validate_match :: "config \<Rightarrow> match_group \<Rightarrow> bool \<times> vmessage" where
  "validate_match cfg m =
     (if revenue m = None then (False, No_revenue)
      else if expenses m = [] then (False, No_expenses)
      else if \<not> is_balanced cfg m then (False, Not_balanced (calculate_match_balance m))
      else (True, Match_is_valid))"

section \<open>Entity matcher\<close>

text \<open>\<open>EntityMatcher.extract_keywords\<close>\<close>

definition extract_keywords :: "config \<Rightarrow> string \<Rightarrow> string set" where
  "extract_keywords cfg text =
     (let words = str_split (sub_special (str_lower text))
      in set (filter (\<lambda>word. word \<notin> set (STOPWORDS cfg) \<and> KEYWORD_MIN_LENGTH cfg \<le> length word)
                words))"

text \<open>
  \<open>EntityMatcher.calculate_similarity\<close>.  \<open>fuzz.token_sort_ratio\<close> belongs to the
  fuzzywuzzy library; it is a parameter of the model and returns a score in percent.
\<close>

definition calculate_similarity :: "(string \<Rightarrow> string \<Rightarrow> nat) \<Rightarrow> string \<Rightarrow> string \<Rightarrow> rat" where
  "calculate_similarity token_sort_ratio text1 text2 = of_nat (token_sort_ratio text1 text2) / 100"

subsection \<open>Exact stage\<close>

text \<open>The test of the inner loop of \<open>exact_match\<close>.\<close>

definition exact_pair :: "config \<Rightarrow> transaction \<Rightarrow> transaction \<Rightarrow> bool" where
  "exact_pair cfg r e =
     (\<bar>abs_amount e - abs_amount r\<bar> < BALANCE_TOLERANCE cfg \<and>
      str_strip (str_lower (description e)) = str_strip (str_lower (description r)))"

definition exact_group :: "transaction \<Rightarrow> transaction \<Rightarrow> match_group" where
  "exact_group r e =
     \<lparr> match_type = ''exact'', confidence = 1, revenue = Some r, expenses = [e],
       balance = abs_amount r - abs_amount e \<rparr>"

text \<open>
  The inner \<open>for\<close> loop over the expenses: skip the consumed ones, stop (\<open>break\<close>) at
  the first that passes the test.
\<close>

fun exact_scan :: "config \<Rightarrow> int set \<Rightarrow> transaction \<Rightarrow> transaction list \<Rightarrow> transaction option" where
  "exact_scan cfg matched_expense_ids r [] = None"
| "exact_scan cfg matched_expense_ids r (e # es) =
     (if original_index e \<in> matched_expense_ids then exact_scan cfg matched_expense_ids r es
      else if exact_pair cfg r e then Some e
      else exact_scan cfg matched_expense_ids r es)"

text \<open>
  The outer loop over the revenues; the state is \<open>matches\<close>, \<open>matched_expense_ids\<close>
  and \<open>matched_revenue_ids\<close>.
\<close>

fun exact_loop :: "config \<Rightarrow> transaction list \<Rightarrow> transaction list \<Rightarrow>
    match_group list \<times> int set \<times> int set \<Rightarrow> match_group list \<times> int set \<times> int set" where
  "exact_loop cfg es [] st = st"
| "exact_loop cfg es (r # rs) (ms, me, mr) =
     (case exact_scan cfg me r es of
        None \<Rightarrow> exact_loop cfg es rs (ms, me, mr)
      | Some e \<Rightarrow>
          exact_loop cfg es rs
            (ms @ [exact_group r e], insert (original_index e) me, insert (original_index r) mr))"

definition exact_match :: "config \<Rightarrow> transaction list \<Rightarrow> transaction list \<Rightarrow>
    match_group list \<times> transaction list \<times> transaction list" where
  "exact_match cfg es rs =
     (case exact_loop cfg es rs ([], {}, {}) of
        (ms, me, mr) \<Rightarrow>
          (ms, filter (\<lambda>e. original_index e \<notin> me) es,
               filter (\<lambda>r. original_index r \<notin> mr) rs))"


subsection \<open>Ranked bounded search\<close>

text \<open>
  An entry of \<open>potential_expenses\<close>: the expense row and its ranking score.  The source
  also stores \<open>shared_keywords\<close> (keyword stage) or \<open>similarity\<close> (fuzzy stage) in the
  entry; the search reads neither.
\<close>

record candidate =
  expense :: transaction
  keyword_score :: rat

text \<open>\<open>str(n)\<close> for a natural number, as used by the f-string of the match type.\<close>

fun str_nat :: "nat \<Rightarrow> string" where
  "str_nat n = (if n < 10 then [digits ! n] else str_nat (n div 10) @ [digits ! (n mod 10)])"

text \<open>\<open>itertools.combinations(xs, k)\<close>: the \<open>k\<close>-element selections in index order.\<close>

fun combinations :: "'a list \<Rightarrow> nat \<Rightarrow> 'a list list" where
  "combinations xs 0 = [[]]"
| "combinations [] (Suc k) = []"
| "combinations (x # xs) (Suc k) = map ((#) x) (combinations xs k) @ combinations xs (Suc k)"

text \<open>
  \<open>list.sort(key=score, reverse=True)\<close> is stable: entries of equal score keep their
  order.  Sorting by the negated score with the stable insertion sort gives that list.
\<close>

definition sort_by_score :: "candidate list \<Rightarrow> candidate list" where
  "sort_by_score ps = sort_key (\<lambda>x. - keyword_score x) ps"

definition single_group :: "transaction \<Rightarrow> candidate \<Rightarrow> match_group" where
  "single_group r pot_exp =
     \<lparr> match_type = ''fuzzy_single'', confidence = keyword_score pot_exp, revenue = Some r,
       expenses = [expense pot_exp],
       balance = abs_amount r - abs_amount (expense pot_exp) \<rparr>"

definition combo_group :: "transaction \<Rightarrow> nat \<Rightarrow> candidate list \<Rightarrow> match_group" where
  "combo_group r combo_size combo =
     (let total_expense = sum_list (map (\<lambda>pe. abs_amount (expense pe)) combo);
          avg_confidence = sum_list (map keyword_score combo) / of_nat (length combo)
      in \<lparr> match_type = ''fuzzy_multiple_'' @ str_nat combo_size, confidence = avg_confidence,
           revenue = Some r, expenses = map expense combo,
           balance = abs_amount r - total_expense \<rparr>)"

text \<open>The loop over the single candidates, returning at the first hit.\<close>

fun first_single :: "config \<Rightarrow> transaction \<Rightarrow> candidate list \<Rightarrow> match_group option" where
  "first_single cfg r [] = None"
| "first_single cfg r (pot_exp # ps) =
     (if \<bar>abs_amount (expense pot_exp) - abs_amount r\<bar> < BALANCE_TOLERANCE cfg
      then Some (single_group r pot_exp)
      else first_single cfg r ps)"

text \<open>The inner loop over the combinations of one size.\<close>

fun first_combo :: "config \<Rightarrow> transaction \<Rightarrow> nat \<Rightarrow> candidate list list \<Rightarrow> match_group option" where
  "first_combo cfg r combo_size [] = None"
| "first_combo cfg r combo_size (combo # rest) =
     (if \<bar>sum_list (map (\<lambda>pe. abs_amount (expense pe)) combo) - abs_amount r\<bar>
           < BALANCE_TOLERANCE cfg
      then Some (combo_group r combo_size combo)
      else first_combo cfg r combo_size rest)"

text \<open>The outer loop over the sizes; \<open>top10\<close> is \<open>potential_expenses[:10]\<close>.\<close>

fun combo_sizes :: "config \<Rightarrow> transaction \<Rightarrow> candidate list \<Rightarrow> nat list \<Rightarrow> match_group option" where
  "combo_sizes cfg r top10 [] = None"
| "combo_sizes cfg r top10 (combo_size # sizes) =
     (case first_combo cfg r combo_size (combinations top10 combo_size) of
        Some g \<Rightarrow> Some g
      | None \<Rightarrow> combo_sizes cfg r top10 sizes)"

text \<open>\<open>EntityMatcher._find_best_expense_combination\<close>\<close>

definition find_best_expense_combination ::
    "config \<Rightarrow> transaction \<Rightarrow> candidate list \<Rightarrow> match_group option" where
  "find_best_expense_combination cfg r potential_expenses =
     (let ps = sort_by_score potential_expenses
      in case first_single cfg r ps of
           Some g \<Rightarrow> Some g
         | None \<Rightarrow> combo_sizes cfg r (take 10 ps) [2 ..< min 6 (length ps + 1)])"

text \<open>
  The ranked bounded search in the words of the specification: the first single candidate
  in rank order within tolerance; failing that, the first combination of the top ten, sizes
  2, 3, 4, 5 in that order, within tolerance; failing that, no solution.
\<close>

definition within_tolerance :: "config \<Rightarrow> rat \<Rightarrow> rat \<Rightarrow> bool" where
  "within_tolerance cfg target tot = (\<bar>tot - target\<bar> < BALANCE_TOLERANCE cfg)"

definition ranked_bounded_search ::
    "config \<Rightarrow> transaction \<Rightarrow> candidate list \<Rightarrow> match_group option" where
  "ranked_bounded_search cfg r cands =
     (let ranked = sort_by_score cands; target = abs_amount r
      in case find (\<lambda>c. within_tolerance cfg target (abs_amount (expense c))) ranked of
           Some c \<Rightarrow> Some (single_group r c)
         | None \<Rightarrow>
            (case find (\<lambda>combo. within_tolerance cfg target
                                  (sum_list (map (\<lambda>c. abs_amount (expense c)) combo)))
                       (concat (map (combinations (take 10 ranked)) [2, 3, 4, 5])) of
               Some combo \<Rightarrow> Some (combo_group r (length combo) combo)
             | None \<Rightarrow> None))"

subsection \<open>Keyword stage\<close>

text \<open>
  The inner loop of \<open>keyword_match\<close>, collecting \<open>potential_expenses\<close>.  The score is
  only computed when at least \<open>min_keywords\<close> keywords are shared; the cascade calls the
  stage with the default \<open>min_keywords = 2\<close>, so the divisor is positive there.
\<close>

fun keyword_candidates :: "config \<Rightarrow> nat \<Rightarrow> string set \<Rightarrow> int set \<Rightarrow> transaction list \<Rightarrow>
    candidate list" where
  "keyword_candidates cfg min_keywords revenue_keywords me [] = []"
| "keyword_candidates cfg min_keywords revenue_keywords me (e # es) =
     (if original_index e \<in> me then keyword_candidates cfg min_keywords revenue_keywords me es
      else
        let expense_keywords = extract_keywords cfg (description e);
            shared_keywords = revenue_keywords \<inter> expense_keywords
        in if min_keywords \<le> card shared_keywords
           then \<lparr> expense = e,
                  keyword_score = of_nat (card shared_keywords)
                     / of_nat (max (card revenue_keywords) (card expense_keywords)) \<rparr>
                # keyword_candidates cfg min_keywords revenue_keywords me es
           else keyword_candidates cfg min_keywords revenue_keywords me es)"

fun keyword_loop :: "config \<Rightarrow> nat \<Rightarrow> transaction list \<Rightarrow> transaction list \<Rightarrow>
    match_group list \<times> int set \<times> int set \<Rightarrow> match_group list \<times> int set \<times> int set" where
  "keyword_loop cfg min_keywords es [] st = st"
| "keyword_loop cfg min_keywords es (r # rs) (ms, me, mr) =
     (let revenue_keywords = extract_keywords cfg (description r)
      in if card revenue_keywords < min_keywords
         then keyword_loop cfg min_keywords es rs (ms, me, mr)
         else
           let potential_expenses = keyword_candidates cfg min_keywords revenue_keywords me es
           in if potential_expenses = [] then keyword_loop cfg min_keywords es rs (ms, me, mr)
              else
                (case find_best_expense_combination cfg r potential_expenses of
                   None \<Rightarrow> keyword_loop cfg min_keywords es rs (ms, me, mr)
                 | Some best_match \<Rightarrow>
                     keyword_loop cfg min_keywords es rs
                       (ms @ [best_match],
                        me \<union> set (map original_index (expenses best_match)),
                        insert (original_index r) mr)))"

definition keyword_match :: "config \<Rightarrow> transaction list \<Rightarrow> transaction list \<Rightarrow> nat \<Rightarrow>
    match_group list \<times> transaction list \<times> transaction list" where
  "keyword_match cfg es rs min_keywords =
     (case keyword_loop cfg min_keywords es rs ([], {}, {}) of
        (ms, me, mr) \<Rightarrow>
          (ms, filter (\<lambda>e. original_index e \<notin> me) es,
               filter (\<lambda>r. original_index r \<notin> mr) rs))"

subsection \<open>Fuzzy stage\<close>

fun fuzzy_candidates :: "config \<Rightarrow> (string \<Rightarrow> string \<Rightarrow> nat) \<Rightarrow> transaction \<Rightarrow> int set \<Rightarrow>
    transaction list \<Rightarrow> candidate list" where
  "fuzzy_candidates cfg tsr r me [] = []"
| "fuzzy_candidates cfg tsr r me (e # es) =
     (if original_index e \<in> me then fuzzy_candidates cfg tsr r me es
      else
        let similarity = calculate_similarity tsr (description r) (description e)
        in if FUZZY_MATCH_THRESHOLD cfg \<le> similarity
           then \<lparr> expense = e, keyword_score = similarity \<rparr> # fuzzy_candidates cfg tsr r me es
           else fuzzy_candidates cfg tsr r me es)"

fun fuzzy_loop :: "config \<Rightarrow> (string \<Rightarrow> string \<Rightarrow> nat) \<Rightarrow> transaction list \<Rightarrow> transaction list \<Rightarrow>
    match_group list \<times> int set \<times> int set \<Rightarrow> match_group list \<times> int set \<times> int set" where
  "fuzzy_loop cfg tsr es [] st = st"
| "fuzzy_loop cfg tsr es (r # rs) (ms, me, mr) =
     (let potential_expenses = fuzzy_candidates cfg tsr r me es
      in if potential_expenses = [] then fuzzy_loop cfg tsr es rs (ms, me, mr)
         else
           (case find_best_expense_combination cfg r potential_expenses of
              None \<Rightarrow> fuzzy_loop cfg tsr es rs (ms, me, mr)
            | Some best_match \<Rightarrow>
                fuzzy_loop cfg tsr es rs
                  (ms @ [best_match],
                   me \<union> set (map original_index (expenses best_match)),
                   insert (original_index r) mr)))"

definition fuzzy_match :: "config \<Rightarrow> (string \<Rightarrow> string \<Rightarrow> nat) \<Rightarrow> transaction list \<Rightarrow>
    transaction list \<Rightarrow> match_group list \<times> transaction list \<times> transaction list" where
  "fuzzy_match cfg tsr es rs =
     (case fuzzy_loop cfg tsr es rs ([], {}, {}) of
        (ms, me, mr) \<Rightarrow>
          (ms, filter (\<lambda>e. original_index e \<notin> me) es,
               filter (\<lambda>r. original_index r \<notin> mr) rs))"

subsection \<open>The cascade\<close>

definition auto_match_all :: "config \<Rightarrow> (string \<Rightarrow> string \<Rightarrow> nat) \<Rightarrow> transaction list \<Rightarrow>
    match_group list \<times> transaction list \<times> transaction list" where
  "auto_match_all cfg tsr df =
     (let es = filter (\<lambda>t. transaction_type t = Expense) df;
          rs = filter (\<lambda>t. transaction_type t = Revenue) df
      in case exact_match cfg es rs of
           (exact_matches, es1, rs1) \<Rightarrow>
             (case keyword_match cfg es1 rs1 2 of
                (keyword_matches, es2, rs2) \<Rightarrow>
                  (case fuzzy_match cfg tsr es2 rs2 of
                     (fuzzy_matches, es3, rs3) \<Rightarrow>
                       (exact_matches @ keyword_matches @ fuzzy_matches, es3, rs3))))"

subsection \<open>Review-candidate ranker\<close>

text \<open>An entry of the list returned by \<open>find_potential_matches\<close>.\<close>

record potential_match =
  pm_expense :: transaction
  fuzzy_score :: rat
  pm_keyword_score :: rat
  amount_score :: rat
  combined_score :: rat
  shared_keywords :: "string set"

text \<open>The body of the loop of \<open>find_potential_matches\<close>, for one expense.\<close>

definition score_expense :: "config \<Rightarrow> (string \<Rightarrow> string \<Rightarrow> nat) \<Rightarrow> transaction \<Rightarrow> transaction \<Rightarrow>
    potential_match" where
  "score_expense cfg tsr r e =
     (let revenue_desc = description r;
          revenue_amount = abs_amount r;
          revenue_keywords = extract_keywords cfg revenue_desc;
          expense_desc = description e;
          expense_keywords = extract_keywords cfg expense_desc;
          fuzzy = calculate_similarity tsr revenue_desc expense_desc;
          kw = (if revenue_keywords \<noteq> {} \<and> expense_keywords \<noteq> {}
                then of_nat (card (revenue_keywords \<inter> expense_keywords))
                       / of_nat (max (card revenue_keywords) (card expense_keywords))
                else 0);
          amount_diff = \<bar>abs_amount e - revenue_amount\<bar>;
          am = (if 0 < revenue_amount then max 0 (1 - amount_diff / revenue_amount) else 0);
          combined = fuzzy * (4 / 10) + kw * (4 / 10) + am * (2 / 10)
      in \<lparr> pm_expense = e, fuzzy_score = fuzzy, pm_keyword_score = kw, amount_score = am,
           combined_score = combined,
           shared_keywords = revenue_keywords \<inter> expense_keywords \<rparr>)"

text \<open>
  \<open>EntityMatcher.find_potential_matches\<close>: score every expense, sort by the combined
  score with the stable descending sort, keep the first \<open>top_n\<close>.
\<close>

definition find_potential_matches :: "config \<Rightarrow> (string \<Rightarrow> string \<Rightarrow> nat) \<Rightarrow> transaction \<Rightarrow>
    transaction list \<Rightarrow> nat \<Rightarrow> potential_match list" where
  "find_potential_matches cfg tsr r es top_n =
     (let potential_matches = map (score_expense cfg tsr r) es
      in take top_n (sort_key (\<lambda>x. - combined_score x) potential_matches))"

record review_item =
  ri_revenue :: transaction
  potential_expenses :: "potential_match list"
  ri_status :: mstatus

definition generate_review_items :: "config \<Rightarrow> (string \<Rightarrow> string \<Rightarrow> nat) \<Rightarrow> transaction list \<Rightarrow>
    transaction list \<Rightarrow> review_item list" where
  "generate_review_items cfg tsr urs ues =
     map (\<lambda>r. \<lparr> ri_revenue = r, potential_expenses = find_potential_matches cfg tsr r ues 5,
                ri_status = Pending_review \<rparr>) urs"

section \<open>Group assignment\<close>

text \<open>
  \<open>BalanceCalculator.assign_match_groups\<close>.  The rows of the table are addressed by their
  index label, which is the \<open>original_index\<close>; the group id \<open>MG_nnnn\<close> is modelled by its
  number.
\<close>

definition stamp :: "int \<Rightarrow> nat \<Rightarrow> rat \<Rightarrow> transaction list \<Rightarrow> transaction list" where
  "stamp idx gid conf df =
     map (\<lambda>t. if original_index t = idx
               then t\<lparr> match_status := Matched, match_group_id := Some gid,
                       match_confidence := Some conf \<rparr>
               else t) df"

fun assign_loop :: "transaction list \<Rightarrow> nat \<Rightarrow> match_group list \<Rightarrow> transaction list" where
  "assign_loop df idx [] = df"
| "assign_loop df idx (m # ms) =
     (let df1 = (case revenue m of
                   None \<Rightarrow> df
                 | Some r \<Rightarrow> stamp (original_index r) idx (confidence m) df);
          df2 = foldl (\<lambda>d e. stamp (original_index e) idx (confidence m) d) df1 (expenses m)
      in assign_loop df2 (Suc idx) ms)"

definition assign_match_groups :: "transaction list \<Rightarrow> match_group list \<Rightarrow> transaction list" where
  "assign_match_groups df ms = assign_loop df 0 ms"

section \<open>Manual confirmation\<close>

text \<open>
  The session entries that \<open>auto_match\<close> stores and \<open>confirm_match\<close> reads and writes.
  A session in which \<open>auto_match\<close> has not run holds none of them (\<open>None\<close>).
\<close>

record session_data =
  updated_df :: "transaction list"
  matches :: "match_group list"
  unmatched_expenses :: "transaction list"
  unmatched_revenues :: "transaction list"
  review_items :: "review_item list"

text \<open>
  The JSON answers of \<open>confirm_match\<close>: \<open>Invalid_match_data\<close> and \<open>Invalid_match\<close> are
  sent with status 400, \<open>Server_error\<close> (the \<open>except\<close> branch) with status 500, and
  \<open>Match_confirmed n\<close> is the success answer with \<open>remaining_reviews = n\<close>.
  \<open>Invalid_match m\<close> stands for the text \<open>"Invalid match: " + m\<close>.
\<close>

datatype reply = Invalid_match_data | Invalid_match vmessage | Match_confirmed nat | Server_error

definition manual_group :: "transaction \<Rightarrow> transaction list \<Rightarrow> match_group" where
  "manual_group r selected =
     \<lparr> match_type = ''manual'', confidence = 1, revenue = Some r, expenses = selected,
       balance = amount r + sum_list (map amount selected) \<rparr>"

text \<open>
  \<open>app.confirm_match\<close>.  \<open>revenue_index\<close> is \<open>None\<close> when the request has no such key.
  A missing session entry and the \<open>.iloc[0]\<close> of an empty selection raise, and the
  \<open>except\<close> branch answers; the session is written only at the end of the success path.
\<close>

definition confirm_match :: "config \<Rightarrow> (string \<Rightarrow> string \<Rightarrow> nat) \<Rightarrow> session_data option \<Rightarrow>
    int option \<Rightarrow> int list \<Rightarrow> reply \<times> session_data option" where
  "confirm_match cfg tsr sess revenue_index expense_indices =
     (if revenue_index = None \<or> revenue_index = Some 0 \<or> expense_indices = []
      then (Invalid_match_data, sess)
      else
        case sess of
          None \<Rightarrow> (Server_error, sess)
        | Some s \<Rightarrow>
           (case filter (\<lambda>t. Some (original_index t) = revenue_index) (unmatched_revenues s) of
              [] \<Rightarrow> (Server_error, sess)
            | r # _ \<Rightarrow>
               let selected = filter (\<lambda>t. original_index t \<in> set expense_indices)
                                (unmatched_expenses s);
                   new_match = manual_group r selected
               in case validate_match cfg new_match of
                    (is_valid, message) \<Rightarrow>
                      if \<not> is_valid then (Invalid_match message, sess)
                      else
                        let ms = matches s @ [new_match];
                            df = assign_match_groups (updated_df s) ms;
                            ues = filter (\<lambda>t. original_index t \<notin> set expense_indices)
                                    (unmatched_expenses s);
                            urs = filter (\<lambda>t. Some (original_index t) \<noteq> revenue_index)
                                    (unmatched_revenues s);
                            ris = generate_review_items cfg tsr urs ues
                        in (Match_confirmed (length ris),
                            Some \<lparr> updated_df = df, matches = ms, unmatched_expenses = ues,
                                   unmatched_revenues = urs, review_items = ris \<rparr>)))"

section \<open>Exact subset sum\<close>











section \<open>Notions used by the properties\<close>

text \<open>The transactions that a list of groups refers to.\<close>

definition group_expenses :: "match_group list \<Rightarrow> transaction list" where
  "group_expenses gs = concat (map expenses gs)"

definition group_revenues :: "match_group list \<Rightarrow> transaction list" where
  "group_revenues gs = concat (map (\<lambda>g. case revenue g of None \<Rightarrow> [] | Some r \<Rightarrow> [r]) gs)"

text \<open>The keyword-overlap fraction of a revenue and an expense, the ranking score of the
  keyword stage.\<close>

definition keyword_overlap :: "config \<Rightarrow> transaction \<Rightarrow> transaction \<Rightarrow> rat" where
  "keyword_overlap cfg r e =
     (let revenue_keywords = extract_keywords cfg (description r);
          expense_keywords = extract_keywords cfg (description e)
      in of_nat (card (revenue_keywords \<inter> expense_keywords))
           / of_nat (max (card revenue_keywords) (card expense_keywords)))"

text \<open>
  The invariant of the three stage loops, for the expense pool \<open>es\<close> and the revenues
  \<open>pre\<close> visited so far: the identifier sets are those of the transactions in the groups,
  and these transactions are taken from the pools, none of them twice.
\<close>

definition stage_inv :: "transaction list \<Rightarrow> transaction list \<Rightarrow>
    match_group list \<times> int set \<times> int set \<Rightarrow> bool" where
  "stage_inv es pre st =
     (case st of (ms, me, mr) \<Rightarrow>
        me = original_index ` set (group_expenses ms) \<and>
        mr = original_index ` set (group_revenues ms) \<and>
        mset (group_expenses ms) \<subseteq># mset es \<and>
        mset (group_revenues ms) \<subseteq># mset pre)"

text \<open>
  A stage result splits its input pools: the transactions of the groups and the remaining
  pools are disjoint and together are the input pools, each transaction once.
\<close>

definition splits_pools :: "match_group list \<times> transaction list \<times> transaction list \<Rightarrow>
    transaction list \<Rightarrow> transaction list \<Rightarrow> bool" where
  "splits_pools res es rs =
     (case res of (gs, es', rs') \<Rightarrow>
        set (group_expenses gs) \<inter> set es' = {} \<and>
        set (group_expenses gs) \<union> set es' = set es \<and>
        mset (group_expenses gs) + mset es' = mset es \<and>
        set (group_revenues gs) \<inter> set rs' = {} \<and>
        set (group_revenues gs) \<union> set rs' = set rs \<and>
        mset (group_revenues gs) + mset rs' = mset rs)"

text \<open>
  What the keyword stage commits for a group: the kind names the size of the group, and the
  confidence is the mean keyword-overlap fraction of the chosen expenses.
\<close>

definition keyword_group_ok :: "config \<Rightarrow> match_group \<Rightarrow> bool" where
  "keyword_group_ok cfg g =
     (case revenue g of
        None \<Rightarrow> False
      | Some r \<Rightarrow>
          expenses g \<noteq> [] \<and> length (expenses g) \<le> 5 \<and>
          confidence g = sum_list (map (keyword_overlap cfg r) (expenses g))
                           / of_nat (length (expenses g)) \<and>
          match_type g = (if length (expenses g) = 1 then ''fuzzy_single''
                          else ''fuzzy_multiple_'' @ str_nat (length (expenses g))))"

section \<open>Scenarios\<close>

definition row :: "int \<Rightarrow> rat \<Rightarrow> string \<Rightarrow> transaction" where
  "row i a d =
     \<lparr> original_index = i, amount = a, description = d,
       transaction_type = (if a < 0 then Expense else if 0 < a then Revenue else Zero),
       abs_amount = \<bar>a\<bar>, match_status = Unmatched, match_group_id = None,
       match_confidence = None \<rparr>"

definition scenario_a_revenue :: transaction where
  "scenario_a_revenue = row 0 100 ''Acme Invoice 123''"

definition scenario_a_expense :: transaction where
  "scenario_a_expense = row 1 (- 100) ''acme invoice 123''"

definition scenario_b_revenue :: transaction where
  "scenario_b_revenue = row 0 250 ''Consulting fee Acme Corp''"

definition scenario_b_expense1 :: transaction where
  "scenario_b_expense1 = row 1 (- 150) ''Acme Corp payment A''"

definition scenario_b_expense2 :: transaction where
  "scenario_b_expense2 = row 2 (- 100) ''Acme Corp payment B''"



text \<open>A session after the automatic run with one unmatched revenue and the given unmatched
  expenses.\<close>

definition open_session :: "transaction \<Rightarrow> transaction list \<Rightarrow> session_data" where
  "open_session r es =
     \<lparr> updated_df = r # es, matches = [], unmatched_expenses = es, unmatched_revenues = [r],
       review_items = generate_review_items Config (\<lambda>a b. 0) [r] es \<rparr>"



definition index_zero_session :: session_data where
  "index_zero_session = open_session scenario_a_revenue [scenario_a_expense]"



text \<open>A table on which the exact stage and the keyword stage each commit one group.\<close>

definition cascade_example :: "transaction list" where
  "cascade_example =
     [row 0 100 ''Acme Invoice 123'', row 1 (- 100) ''acme invoice 123'',
      row 2 250 ''Consulting fee Acme Corp'', row 3 (- 150) ''Acme Corp payment A'',
      row 4 (- 100) ''Acme Corp payment B'', row 5 80 ''Misc'']"

section \<open>Verified properties\<close>

subsection \<open>Balance validation\<close>



subsection \<open>Exact stage\<close>


lemma exact_scan_None:
  "exact_scan cfg ids r es = None \<longleftrightarrow>
     list_all (\<lambda>e. original_index e \<in> ids \<or> \<not> exact_pair cfg r e) es"
  by (induction es) auto



lemma exact_loop_mono:
  "exact_loop cfg es rs (ms, me, mr) = (ms', me', mr') \<Longrightarrow> me \<subseteq> me' \<and> mr \<subseteq> mr'"
proof (induction rs arbitrary: ms me mr)
  case Nil
  then show ?case by simp
next
  case (Cons r rs)
  show ?case
  proof (cases "exact_scan cfg me r es")
    case None
    with Cons.prems have "exact_loop cfg es rs (ms, me, mr) = (ms', me', mr')" by simp
    then show ?thesis by (rule Cons.IH)
  next
    case (Some e)
    with Cons.prems have "exact_loop cfg es rs
        (ms @ [exact_group r e], insert (original_index e) me, insert (original_index r) mr)
         = (ms', me', mr')" by simp
    from Cons.IH[OF this] show ?thesis by blast
  qed
qed

text \<open>
  A revenue left over by the loop passes the test with no expense that is left over: when
  its turn came, every expense that passes was already consumed, and consumed expenses stay
  consumed.
\<close>

lemma exact_loop_left_over:
  "exact_loop cfg es rs (ms, me, mr) = (ms', me', mr') \<Longrightarrow> r \<in> set rs \<Longrightarrow>
   original_index r \<notin> mr' \<Longrightarrow> e \<in> set es \<Longrightarrow> original_index e \<notin> me' \<Longrightarrow> \<not> exact_pair cfg r e"
proof (induction rs arbitrary: ms me mr)
  case Nil
  then show ?case by simp
next
  case (Cons r0 rs)
  show ?case
  proof (cases "exact_scan cfg me r0 es")
    case None
    with Cons.prems(1) have run: "exact_loop cfg es rs (ms, me, mr) = (ms', me', mr')" by simp
    show ?thesis
    proof (cases "r = r0")
      case True
      from exact_loop_mono[OF run] Cons.prems(5) have "original_index e \<notin> me" by auto
      with None Cons.prems(4) True show ?thesis
        by (auto simp: exact_scan_None list_all_iff)
    next
      case False
      with Cons.prems(2) have "r \<in> set rs" by simp
      from Cons.IH[OF run this Cons.prems(3,4,5)] show ?thesis .
    qed
  next
    case (Some e0)
    with Cons.prems(1) have run: "exact_loop cfg es rs
        (ms @ [exact_group r0 e0], insert (original_index e0) me, insert (original_index r0) mr)
         = (ms', me', mr')" by simp
    from exact_loop_mono[OF run] have "original_index r0 \<in> mr'" by auto
    with Cons.prems(3) have "r \<noteq> r0" by auto
    with Cons.prems(2) have "r \<in> set rs" by simp
    from Cons.IH[OF run this Cons.prems(3,4,5)] show ?thesis .
  qed
qed

lemma exact_loop_no_pair:
  "list_all (\<lambda>r. list_all (\<lambda>e. \<not> exact_pair cfg r e) es) rs \<Longrightarrow> exact_loop cfg es rs st = st"
proof (induction rs)
  case Nil
  then show ?case by simp
next
  case (Cons r rs)
  obtain ms me mr where st: "st = (ms, me, mr)" by (cases st)
  from Cons.prems have "exact_scan cfg me r es = None"
    by (auto simp: exact_scan_None list_all_iff)
  with Cons st show ?case by simp
qed

lemmas string_defs = str_lower_def lower_char_def ascii_uppercase_def ascii_lowercase_def
  str_strip_def isspace_def isword_def digits_def str_split_def sub_special_def



text \<open>
  C8.  Running the Exact stage again on the pools that a first run left over produces no
  group and returns the two pools unchanged.
\<close>

theorem exact_match_idempotent:
  assumes "exact_match cfg es rs = (gs, es', rs')"
  shows "exact_match cfg es' rs' = ([], es', rs')"
proof -
  obtain ms me mr where run: "exact_loop cfg es rs ([], {}, {}) = (ms, me, mr)"
    by (cases "exact_loop cfg es rs ([], {}, {})")
  with assms have es': "es' = filter (\<lambda>e. original_index e \<notin> me) es"
    and rs': "rs' = filter (\<lambda>r. original_index r \<notin> mr) rs"
    by (simp_all add: exact_match_def)
  have "list_all (\<lambda>r. list_all (\<lambda>e. \<not> exact_pair cfg r e) es') rs'"
    unfolding list_all_iff es' rs' using exact_loop_left_over[OF run] by auto
  then have "exact_loop cfg es' rs' ([], {}, {}) = ([], {}, {})"
    by (rule exact_loop_no_pair)
  then show ?thesis by (simp add: exact_match_def)
qed

theorem exact_match_idempotent_witness:
  "exact_match Config [scenario_a_expense, row 2 (- 40) ''rent'']
       [scenario_a_revenue, row 3 75 ''sales''] =
     ([exact_group scenario_a_revenue scenario_a_expense], [row 2 (- 40) ''rent''],
      [row 3 75 ''sales'']) \<and>
   exact_match Config [row 2 (- 40) ''rent''] [row 3 75 ''sales''] =
     ([], [row 2 (- 40) ''rent''], [row 3 75 ''sales''])"
proof -
  have first_run: "exact_match Config [scenario_a_expense, row 2 (- 40) ''rent'']
       [scenario_a_revenue, row 3 75 ''sales''] =
     ([exact_group scenario_a_revenue scenario_a_expense], [row 2 (- 40) ''rent''],
      [row 3 75 ''sales''])"
    by (simp add: exact_match_def exact_pair_def Config_def scenario_a_revenue_def
          scenario_a_expense_def row_def string_defs)
  from exact_match_idempotent [OF first_run] first_run show ?thesis by simp
qed

subsection \<open>Ranked bounded search\<close>

lemma find_append_case:
  "find P (xs @ ys) = (case find P xs of None \<Rightarrow> find P ys | Some x \<Rightarrow> Some x)"
  by (induction xs) auto

lemma find_in_set: "find P xs = Some x \<Longrightarrow> x \<in> set xs"
  by (induction xs) (auto split: if_splits)

lemma first_single_find:
  "first_single cfg r ps =
     map_option (single_group r)
       (find (\<lambda>c. within_tolerance cfg (abs_amount r) (abs_amount (expense c))) ps)"
  by (induction ps) (auto simp: within_tolerance_def)

lemma first_combo_find:
  "first_combo cfg r k cs =
     map_option (combo_group r k)
       (find (\<lambda>combo. within_tolerance cfg (abs_amount r)
                (sum_list (map (\<lambda>c. abs_amount (expense c)) combo))) cs)"
  by (induction cs) (auto simp: within_tolerance_def)

lemma length_combinations: "c \<in> set (combinations xs k) \<Longrightarrow> length c = k"
  by (induction xs k arbitrary: c rule: combinations.induct) auto

lemma combinations_too_long: "length xs < k \<Longrightarrow> combinations xs k = []"
  by (induction xs k rule: combinations.induct) auto

lemma combo_sizes_find:
  "combo_sizes cfg r top10 ks =
     (case find (\<lambda>combo. within_tolerance cfg (abs_amount r)
                   (sum_list (map (\<lambda>c. abs_amount (expense c)) combo)))
             (concat (map (combinations top10) ks)) of
        Some combo \<Rightarrow> Some (combo_group r (length combo) combo)
      | None \<Rightarrow> None)"
proof (induction ks)
  case Nil
  then show ?case by simp
next
  case (Cons k ks)
  show ?case
  proof (cases "find (\<lambda>combo. within_tolerance cfg (abs_amount r)
                   (sum_list (map (\<lambda>c. abs_amount (expense c)) combo))) (combinations top10 k)")
    case None
    with Cons show ?thesis by (simp add: first_combo_find find_append_case)
  next
    case (Some c)
    then have "length c = k" by (auto dest: find_in_set length_combinations)
    with Some show ?thesis by (simp add: first_combo_find find_append_case)
  qed
qed

text \<open>
  The source stops the sizes at the number of candidates; the sizes beyond it have no
  combination, so the sizes 2 to 5 give the same sequence of combinations.
\<close>

lemma sizes_concat:
  assumes "length top10 \<le> n"
  shows "concat (map (combinations top10) [2 ..< min 6 (n + 1)]) =
         concat (map (combinations top10) [2, 3, 4, 5])"
proof -
  consider "n = 0" | "n = 1" | "n = 2" | "n = 3" | "n = 4" | "5 \<le> n" by linarith
  then show ?thesis
  proof cases
    case 6
    then have "min 6 (n + 1) = 6" by simp
    then show ?thesis by (simp add: upt_rec)
  qed (use assms in \<open>simp_all add: upt_rec combinations_too_long\<close>)
qed

lemma find_best_search:
  "find_best_expense_combination cfg r cands = ranked_bounded_search cfg r cands"
proof -
  have "length (take 10 (sort_by_score cands)) \<le> length (sort_by_score cands)" by simp
  from sizes_concat[OF this] show ?thesis
    by (simp add: find_best_expense_combination_def ranked_bounded_search_def Let_def
          first_single_find combo_sizes_find split: option.splits)
qed


subsection \<open>The stage loops\<close>

lemma subseteq_add_mset: "A \<subseteq># B \<Longrightarrow> A \<subseteq># add_mset y B"
  by (simp add: subseteq_mset_def le_SucI)

lemma subseq_mset: "subseq xs ys \<Longrightarrow> mset xs \<subseteq># mset ys"
proof (induction rule: list_emb.induct)
  case (list_emb_Nil ys)
  then show ?case by simp
next
  case (list_emb_Cons xs ys y)
  then show ?case by (simp add: subseteq_add_mset)
next
  case (list_emb_Cons2 x y xs ys)
  then show ?case by simp
qed

lemma find_sat: "find P xs = Some x \<Longrightarrow> P x"
  by (induction xs) (auto split: if_splits)

lemma combinations_subseq: "c \<in> set (combinations xs k) \<Longrightarrow> subseq c xs"
  by (induction xs k arbitrary: c rule: combinations.induct) auto

lemma mset_sort_by_score: "mset (sort_by_score ps) = mset ps"
  by (simp add: sort_by_score_def)

lemma take_mset: "mset (take n xs) \<subseteq># mset xs"
  by (metis append_take_drop_id mset_append mset_subset_eq_add_left)

text \<open>What a successful search returns.\<close>

lemma find_best_Some:
  assumes "find_best_expense_combination cfg r pots = Some g"
  shows "\<exists>combo. combo \<noteq> [] \<and> length combo \<le> 5 \<and> mset combo \<subseteq># mset pots \<and>
           revenue g = Some r \<and> expenses g = map expense combo \<and>
           confidence g = sum_list (map keyword_score combo) / of_nat (length combo) \<and>
           match_type g = (if length combo = 1 then ''fuzzy_single''
                           else ''fuzzy_multiple_'' @ str_nat (length combo)) \<and>
           within_tolerance cfg (abs_amount r)
             (sum_list (map (\<lambda>c. abs_amount (expense c)) combo))"
proof -
  let ?ranked = "sort_by_score pots"
  let ?P = "\<lambda>c. within_tolerance cfg (abs_amount r) (abs_amount (expense c))"
  let ?Q = "\<lambda>combo. within_tolerance cfg (abs_amount r)
                (sum_list (map (\<lambda>c. abs_amount (expense c)) combo))"
  from assms have rbs: "ranked_bounded_search cfg r pots = Some g"
    by (simp add: find_best_search)
  show ?thesis
  proof (cases "find ?P ?ranked")
    case (Some c)
    with rbs have g: "g = single_group r c"
      by (simp add: ranked_bounded_search_def Let_def)
    from Some have "c \<in> set ?ranked" by (rule find_in_set)
    from Some have "?P c" by (rule find_sat)
    from \<open>c \<in> set ?ranked\<close> have "c \<in> set pots"
      by (metis mset_sort_by_score set_mset_mset)
    then have "mset [c] \<subseteq># mset pots"
      by simp
    with g \<open>?P c\<close> show ?thesis
      by (intro exI[of _ "[c]"]) (simp add: single_group_def)
  next
    case None
    with rbs obtain combo where
      f: "find ?Q (concat (map (combinations (take 10 ?ranked)) [2, 3, 4, 5])) = Some combo"
      and g: "g = combo_group r (length combo) combo"
      by (auto simp: ranked_bounded_search_def Let_def split: option.splits)
    from f have Q: "?Q combo" by (rule find_sat)
    from f have mem: "combo \<in> set (concat (map (combinations (take 10 ?ranked)) [2, 3, 4, 5]))"
      by (rule find_in_set)
    from mem obtain k where k: "k \<in> {2, 3, 4, 5}" and ck: "combo \<in> set (combinations (take 10 ?ranked) k)"
      by auto
    from ck have len: "length combo = k" by (rule length_combinations)
    from ck have "subseq combo (take 10 ?ranked)" by (rule combinations_subseq)
    then have "mset combo \<subseteq># mset (take 10 ?ranked)" by (rule subseq_mset)
    also have "\<dots> \<subseteq># mset ?ranked" by (rule take_mset)
    finally have sub: "mset combo \<subseteq># mset pots" by (simp add: mset_sort_by_score)
    from k len have "combo \<noteq> []" "length combo \<le> 5" "length combo \<noteq> 1" by auto
    with g Q sub show ?thesis
      by (intro exI[of _ combo]) (simp add: combo_group_def Let_def)
  qed
qed

lemma keyword_candidates_mset:
  "mset (map expense (keyword_candidates cfg k rk me es))
     \<subseteq># mset (filter (\<lambda>e. original_index e \<notin> me) es)"
  by (induction es) (simp_all add: Let_def subseteq_add_mset)

lemma keyword_candidates_score:
  "c \<in> set (keyword_candidates cfg k (extract_keywords cfg (description r)) me es) \<Longrightarrow>
   keyword_score c = keyword_overlap cfg r (expense c)"
  by (induction es) (auto simp: Let_def keyword_overlap_def split: if_splits)

lemma fuzzy_candidates_mset:
  "mset (map expense (fuzzy_candidates cfg tsr r me es))
     \<subseteq># mset (filter (\<lambda>e. original_index e \<notin> me) es)"
  by (induction es) (simp_all add: Let_def subseteq_add_mset)

lemma submset_distinct: "mset xs \<subseteq># mset ys \<Longrightarrow> distinct ys \<Longrightarrow> distinct xs"
proof -
  assume sub: "mset xs \<subseteq># mset ys" and dist: "distinct ys"
  from sub obtain C where C: "mset ys = mset xs + C"
    by (auto simp: mset_subset_eq_exists_conv)
  obtain zs where "mset zs = C" using ex_mset[of C] by blast
  with C have "mset ys = mset (xs @ zs)" by simp
  from mset_eq_imp_distinct_iff[OF this] dist have "distinct (xs @ zs)" by simp
  then show ?thesis by simp
qed

lemma submset_full:
  assumes "mset xs \<subseteq># mset ys" "distinct ys" "set ys \<subseteq> set xs"
  shows "mset xs = mset ys"
proof -
  from assms(1,2) have "distinct xs" by (rule submset_distinct)
  moreover from assms(1) have "set xs \<subseteq> set ys" by (metis set_mset_mono set_mset_mset)
  ultimately show ?thesis using assms(2,3)
    by (simp add: set_eq_iff_mset_eq_distinct[symmetric] subset_antisym)
qed

lemma group_expenses_snoc: "group_expenses (ms @ [g]) = group_expenses ms @ expenses g"
  by (simp add: group_expenses_def)

lemma group_revenues_snoc:
  "revenue g = Some r \<Longrightarrow> group_revenues (ms @ [g]) = group_revenues ms @ [r]"
  by (simp add: group_revenues_def)

lemma group_expenses_append: "group_expenses (xs @ ys) = group_expenses xs @ group_expenses ys"
  by (simp add: group_expenses_def)

lemma group_revenues_append: "group_revenues (xs @ ys) = group_revenues xs @ group_revenues ys"
  by (simp add: group_revenues_def)

text \<open>The consumed expenses lie in the part of the pool whose identifiers are consumed.\<close>

lemma consumed_part:
  assumes "mset xs \<subseteq># mset es" "\<forall>x\<in>set xs. P x"
  shows "mset xs \<subseteq># mset (filter P es)"
proof -
  from assms(1) have "filter_mset P (mset xs) \<subseteq># filter_mset P (mset es)"
    by (rule multiset_filter_mono)
  moreover from assms(2) have "filter_mset P (mset xs) = mset xs"
    by (simp add: filter_mset_eq_conv)
  ultimately show ?thesis by simp
qed

lemma stage_inv_skip: "stage_inv es pre st \<Longrightarrow> stage_inv es (pre @ [r]) st"
  by (cases st) (simp add: stage_inv_def subseteq_add_mset)

lemma stage_inv_step:
  assumes inv: "stage_inv es pre (ms, me, mr)"
    and rev: "revenue g = Some r"
    and new: "mset (expenses g) \<subseteq># mset (filter (\<lambda>e. original_index e \<notin> me) es)"
  shows "stage_inv es (pre @ [r])
           (ms @ [g], me \<union> set (map original_index (expenses g)), insert (original_index r) mr)"
proof -
  from inv have me: "me = original_index ` set (group_expenses ms)"
    and mr: "mr = original_index ` set (group_revenues ms)"
    and sub_e: "mset (group_expenses ms) \<subseteq># mset es"
    and sub_r: "mset (group_revenues ms) \<subseteq># mset pre"
    by (simp_all add: stage_inv_def)
  from me have "\<forall>x\<in>set (group_expenses ms). original_index x \<in> me" by simp
  with sub_e have "mset (group_expenses ms) \<subseteq># mset (filter (\<lambda>e. original_index e \<in> me) es)"
    by (rule consumed_part)
  from this new have "mset (group_expenses ms) + mset (expenses g)
      \<subseteq># mset (filter (\<lambda>e. original_index e \<in> me) es)
        + mset (filter (\<lambda>e. original_index e \<notin> me) es)"
    by (rule mset_subset_eq_mono_add)
  also have "\<dots> = mset es"
    using multiset_partition[of "mset es" "\<lambda>e. original_index e \<in> me"] by simp
  finally have e': "mset (group_expenses (ms @ [g])) \<subseteq># mset es"
    by (simp add: group_expenses_snoc)
  from sub_r have r': "mset (group_revenues (ms @ [g])) \<subseteq># mset (pre @ [r])"
    by (simp add: group_revenues_snoc[OF rev])
  from me have me': "me \<union> set (map original_index (expenses g))
      = original_index ` set (group_expenses (ms @ [g]))"
    by (auto simp: group_expenses_snoc)
  from mr have mr': "insert (original_index r) mr
      = original_index ` set (group_revenues (ms @ [g]))"
    by (auto simp: group_revenues_snoc[OF rev])
  from e' r' me' mr' show ?thesis
    unfolding stage_inv_def by simp
qed

lemma exact_scan_Some:
  "exact_scan cfg me r es = Some e \<Longrightarrow> e \<in> set es \<and> original_index e \<notin> me"
  by (induction es) (auto split: if_splits)

lemma exact_loop_inv:
  "exact_loop cfg es rs st = st' \<Longrightarrow> stage_inv es pre st \<Longrightarrow> stage_inv es (pre @ rs) st'"
proof (induction rs arbitrary: st pre)
  case Nil
  then show ?case by simp
next
  case (Cons r rs)
  obtain ms me mr where st: "st = (ms, me, mr)" by (cases st)
  show ?case
  proof (cases "exact_scan cfg me r es")
    case None
    with Cons.prems(1) st have "exact_loop cfg es rs st = st'" by simp
    from Cons.IH[OF this stage_inv_skip[OF Cons.prems(2)]] show ?thesis by simp
  next
    case (Some e)
    with Cons.prems(1) st have run: "exact_loop cfg es rs
        (ms @ [exact_group r e], me \<union> set (map original_index (expenses (exact_group r e))),
         insert (original_index r) mr) = st'"
      by (simp add: exact_group_def)
    from exact_scan_Some[OF Some]
    have "mset (expenses (exact_group r e)) \<subseteq># mset (filter (\<lambda>e. original_index e \<notin> me) es)"
      by (simp add: exact_group_def)
    from stage_inv_step[OF Cons.prems(2)[unfolded st] _ this, of r]
    have "stage_inv es (pre @ [r]) (ms @ [exact_group r e],
        me \<union> set (map original_index (expenses (exact_group r e))), insert (original_index r) mr)"
      by (simp add: exact_group_def)
    from Cons.IH[OF run this] show ?thesis by simp
  qed
qed

lemma find_best_step:
  assumes inv: "stage_inv es pre (ms, me, mr)"
    and pots: "mset (map expense pots) \<subseteq># mset (filter (\<lambda>e. original_index e \<notin> me) es)"
    and best: "find_best_expense_combination cfg r pots = Some g"
  shows "stage_inv es (pre @ [r])
           (ms @ [g], me \<union> set (map original_index (expenses g)), insert (original_index r) mr)"
proof -
  from find_best_Some[OF best] obtain combo where
    sub: "mset combo \<subseteq># mset pots" and rev: "revenue g = Some r"
    and ex: "expenses g = map expense combo"
    by blast
  from sub have a: "mset (map expense combo) \<subseteq># mset (map expense pots)"
    by (simp add: image_mset_subseteq_mono)
  from subset_mset.order_trans[OF a pots] ex
  have "mset (expenses g) \<subseteq># mset (filter (\<lambda>e. original_index e \<notin> me) es)"
    by simp
  from stage_inv_step[OF inv rev this] show ?thesis .
qed

lemma keyword_loop_inv:
  "keyword_loop cfg k es rs st = st' \<Longrightarrow> stage_inv es pre st \<Longrightarrow> stage_inv es (pre @ rs) st'"
proof (induction rs arbitrary: st pre)
  case Nil
  then show ?case by simp
next
  case (Cons r rs)
  obtain ms me mr where st: "st = (ms, me, mr)" by (cases st)
  let ?pots = "keyword_candidates cfg k (extract_keywords cfg (description r)) me es"
  have skip: "keyword_loop cfg k es rs st = st' \<Longrightarrow> ?case"
    using Cons.IH[OF _ stage_inv_skip[OF Cons.prems(2)], of r] by simp
  show ?case
  proof (cases "find_best_expense_combination cfg r ?pots")
    case None
    with Cons.prems(1) st have "keyword_loop cfg k es rs st = st'"
      by (simp add: Let_def split: if_splits)
    then show ?thesis by (rule skip)
  next
    case (Some g)
    show ?thesis
    proof (cases "card (extract_keywords cfg (description r)) < k \<or> ?pots = []")
      case True
      with Cons.prems(1) st have "keyword_loop cfg k es rs st = st'"
        by (auto simp: Let_def)
      then show ?thesis by (rule skip)
    next
      case False
      with Cons.prems(1) st Some have run: "keyword_loop cfg k es rs
          (ms @ [g], me \<union> set (map original_index (expenses g)), insert (original_index r) mr)
           = st'"
        by (simp add: Let_def)
      from find_best_step[OF Cons.prems(2)[unfolded st] keyword_candidates_mset Some]
      have "stage_inv es (pre @ [r])
           (ms @ [g], me \<union> set (map original_index (expenses g)), insert (original_index r) mr)" .
      from Cons.IH[OF run this] show ?thesis by simp
    qed
  qed
qed

lemma fuzzy_loop_inv:
  "fuzzy_loop cfg tsr es rs st = st' \<Longrightarrow> stage_inv es pre st \<Longrightarrow> stage_inv es (pre @ rs) st'"
proof (induction rs arbitrary: st pre)
  case Nil
  then show ?case by simp
next
  case (Cons r rs)
  obtain ms me mr where st: "st = (ms, me, mr)" by (cases st)
  let ?pots = "fuzzy_candidates cfg tsr r me es"
  have skip: "fuzzy_loop cfg tsr es rs st = st' \<Longrightarrow> ?case"
    using Cons.IH[OF _ stage_inv_skip[OF Cons.prems(2)], of r] by simp
  show ?case
  proof (cases "find_best_expense_combination cfg r ?pots")
    case None
    with Cons.prems(1) st have "fuzzy_loop cfg tsr es rs st = st'"
      by (simp add: Let_def split: if_splits)
    then show ?thesis by (rule skip)
  next
    case (Some g)
    show ?thesis
    proof (cases "?pots = []")
      case True
      with Cons.prems(1) st have "fuzzy_loop cfg tsr es rs st = st'"
        by (auto simp: Let_def)
      then show ?thesis by (rule skip)
    next
      case False
      with Cons.prems(1) st Some have run: "fuzzy_loop cfg tsr es rs
          (ms @ [g], me \<union> set (map original_index (expenses g)), insert (original_index r) mr)
           = st'"
        by (simp add: Let_def)
      from find_best_step[OF Cons.prems(2)[unfolded st] fuzzy_candidates_mset Some]
      have "stage_inv es (pre @ [r])
           (ms @ [g], me \<union> set (map original_index (expenses g)), insert (original_index r) mr)" .
      from Cons.IH[OF run this] show ?thesis by simp
    qed
  qed
qed

lemma stage_inv_init: "stage_inv es [] ([], {}, {})"
  by (simp add: stage_inv_def group_expenses_def group_revenues_def)

text \<open>One pool: the consumed part and the part that the final filter keeps.\<close>

lemma pool_split:
  assumes ids: "ids = original_index ` set xs"
    and sub: "mset xs \<subseteq># mset pool"
    and dist: "distinct (map original_index pool)"
  shows "mset xs + mset (filter (\<lambda>t. original_index t \<notin> ids) pool) = mset pool"
    and "set xs \<inter> set (filter (\<lambda>t. original_index t \<notin> ids) pool) = {}"
    and "set xs \<union> set (filter (\<lambda>t. original_index t \<notin> ids) pool) = set pool"
proof -
  from dist have dp: "distinct pool" and inj: "inj_on original_index (set pool)"
    by (simp_all add: distinct_map)
  from sub have xs_pool: "set xs \<subseteq> set pool" by (metis set_mset_mono set_mset_mset)
  have "\<forall>x\<in>set xs. original_index x \<in> ids" using ids by simp
  with sub have s1: "mset xs \<subseteq># mset (filter (\<lambda>t. original_index t \<in> ids) pool)"
    by (rule consumed_part)
  have "set (filter (\<lambda>t. original_index t \<in> ids) pool) \<subseteq> set xs"
  proof
    fix t assume "t \<in> set (filter (\<lambda>t. original_index t \<in> ids) pool)"
    then have t: "t \<in> set pool" and "original_index t \<in> ids" by simp_all
    with ids obtain x where x: "x \<in> set xs" and "original_index x = original_index t" by auto
    with inj t xs_pool have "x = t" by (auto dest: inj_onD)
    with x show "t \<in> set xs" by simp
  qed
  with s1 dp have eq: "mset xs = mset (filter (\<lambda>t. original_index t \<in> ids) pool)"
    by (intro submset_full) simp_all
  then show "mset xs + mset (filter (\<lambda>t. original_index t \<notin> ids) pool) = mset pool"
    using multiset_partition[of "mset pool" "\<lambda>t. original_index t \<in> ids"] by simp
  from eq have "set xs = set (filter (\<lambda>t. original_index t \<in> ids) pool)"
    by (rule mset_eq_setD)
  then show "set xs \<inter> set (filter (\<lambda>t. original_index t \<notin> ids) pool) = {}"
    and "set xs \<union> set (filter (\<lambda>t. original_index t \<notin> ids) pool) = set pool"
    by auto
qed

lemma stage_inv_splits:
  assumes "stage_inv es rs (ms, me, mr)"
    and "distinct (map original_index es)" "distinct (map original_index rs)"
  shows "splits_pools (ms, filter (\<lambda>e. original_index e \<notin> me) es,
                           filter (\<lambda>r. original_index r \<notin> mr) rs) es rs"
proof -
  from assms(1) have me: "me = original_index ` set (group_expenses ms)"
    and mr: "mr = original_index ` set (group_revenues ms)"
    and sub_e: "mset (group_expenses ms) \<subseteq># mset es"
    and sub_r: "mset (group_revenues ms) \<subseteq># mset rs"
    by (simp_all add: stage_inv_def)
  from pool_split[OF me sub_e assms(2)] pool_split[OF mr sub_r assms(3)]
  show ?thesis unfolding splits_pools_def by simp
qed

lemma exact_match_splits:
  assumes "distinct (map original_index es)" "distinct (map original_index rs)"
  shows "splits_pools (exact_match cfg es rs) es rs"
proof -
  obtain ms me mr where run: "exact_loop cfg es rs ([], {}, {}) = (ms, me, mr)"
    by (cases "exact_loop cfg es rs ([], {}, {})")
  from exact_loop_inv[OF run stage_inv_init] have "stage_inv es rs (ms, me, mr)" by simp
  from stage_inv_splits[OF this assms] show ?thesis by (simp add: exact_match_def run)
qed

lemma keyword_match_splits:
  assumes "distinct (map original_index es)" "distinct (map original_index rs)"
  shows "splits_pools (keyword_match cfg es rs k) es rs"
proof -
  obtain ms me mr where run: "keyword_loop cfg k es rs ([], {}, {}) = (ms, me, mr)"
    by (cases "keyword_loop cfg k es rs ([], {}, {})")
  from keyword_loop_inv[OF run stage_inv_init] have "stage_inv es rs (ms, me, mr)" by simp
  from stage_inv_splits[OF this assms] show ?thesis by (simp add: keyword_match_def run)
qed

lemma fuzzy_match_splits:
  assumes "distinct (map original_index es)" "distinct (map original_index rs)"
  shows "splits_pools (fuzzy_match cfg tsr es rs) es rs"
proof -
  obtain ms me mr where run: "fuzzy_loop cfg tsr es rs ([], {}, {}) = (ms, me, mr)"
    by (cases "fuzzy_loop cfg tsr es rs ([], {}, {})")
  from fuzzy_loop_inv[OF run stage_inv_init] have "stage_inv es rs (ms, me, mr)" by simp
  from stage_inv_splits[OF this assms] show ?thesis by (simp add: fuzzy_match_def run)
qed

lemma splits_pools_compose:
  assumes "splits_pools (ga, ea, ra) es rs" "splits_pools (gb, eb, rb) ea ra"
  shows "splits_pools (ga @ gb, eb, rb) es rs"
proof -
  from assms have
    a1: "set (group_expenses ga) \<inter> set ea = {}" and a2: "set (group_expenses ga) \<union> set ea = set es"
    and a3: "mset (group_expenses ga) + mset ea = mset es"
    and a4: "set (group_revenues ga) \<inter> set ra = {}" and a5: "set (group_revenues ga) \<union> set ra = set rs"
    and a6: "mset (group_revenues ga) + mset ra = mset rs"
    and b1: "set (group_expenses gb) \<inter> set eb = {}" and b2: "set (group_expenses gb) \<union> set eb = set ea"
    and b3: "mset (group_expenses gb) + mset eb = mset ea"
    and b4: "set (group_revenues gb) \<inter> set rb = {}" and b5: "set (group_revenues gb) \<union> set rb = set ra"
    and b6: "mset (group_revenues gb) + mset rb = mset ra"
    by (simp_all add: splits_pools_def)
  have c1: "set (group_expenses (ga @ gb)) \<inter> set eb = {}"
    using a1 b1 b2 by (auto simp: group_expenses_append)
  have c2: "set (group_expenses (ga @ gb)) \<union> set eb = set es"
    using a2 b2 by (auto simp: group_expenses_append)
  have c3: "mset (group_expenses (ga @ gb)) + mset eb = mset es"
    using a3 b3 by (simp add: group_expenses_append add.assoc)
  have c4: "set (group_revenues (ga @ gb)) \<inter> set rb = {}"
    using a4 b4 b5 by (auto simp: group_revenues_append)
  have c5: "set (group_revenues (ga @ gb)) \<union> set rb = set rs"
    using a5 b5 by (auto simp: group_revenues_append)
  have c6: "mset (group_revenues (ga @ gb)) + mset rb = mset rs"
    using a6 b6 by (simp add: group_revenues_append add.assoc)
  from c1 c2 c3 c4 c5 c6 show ?thesis by (simp add: splits_pools_def)
qed

lemma exact_match_remaining:
  "exact_match cfg es rs = (gs, es', rs') \<Longrightarrow> \<exists>P Q. es' = filter P es \<and> rs' = filter Q rs"
  by (auto simp: exact_match_def split: prod.splits)

lemma keyword_match_remaining:
  "keyword_match cfg es rs k = (gs, es', rs') \<Longrightarrow> \<exists>P Q. es' = filter P es \<and> rs' = filter Q rs"
  by (auto simp: keyword_match_def split: prod.splits)

text \<open>
  C3.  Let the rows of the table have pairwise different identifiers.  Each stage run by
  \<open>auto_match_all\<close> (exact, keyword, fuzzy) splits its input pools: the transactions in
  the groups it produces and the transactions in the pools it returns are disjoint and
  together are its input pools, each transaction once.  Hence after the first, the second
  and the third stage the transactions matched so far and the unmatched pools split the
  expense and revenue rows of the table, and a transaction consumed by one stage is in no
  pool or group of a later stage.
\<close>

theorem cascade_partition:
  assumes ids: "distinct (map original_index df)"
    and es: "es = filter (\<lambda>t. transaction_type t = Expense) df"
    and rs: "rs = filter (\<lambda>t. transaction_type t = Revenue) df"
    and s1: "exact_match cfg es rs = (g1, e1, r1)"
    and s2: "keyword_match cfg e1 r1 2 = (g2, e2, r2)"
    and s3: "fuzzy_match cfg tsr e2 r2 = (g3, e3, r3)"
  shows "splits_pools (g1, e1, r1) es rs \<and>
         splits_pools (g2, e2, r2) e1 r1 \<and>
         splits_pools (g3, e3, r3) e2 r2 \<and>
         splits_pools (g1 @ g2, e2, r2) es rs \<and>
         splits_pools (g1 @ g2 @ g3, e3, r3) es rs \<and>
         auto_match_all cfg tsr df = (g1 @ g2 @ g3, e3, r3) \<and>
         set es \<inter> set rs = {}"
proof -
  from ids have d0: "distinct (map original_index es)" "distinct (map original_index rs)"
    unfolding es rs by (simp_all add: distinct_map_filter)
  from exact_match_remaining[OF s1] d0
  have d1: "distinct (map original_index e1)" "distinct (map original_index r1)"
    by (auto simp: distinct_map_filter)
  from keyword_match_remaining[OF s2] d1
  have d2: "distinct (map original_index e2)" "distinct (map original_index r2)"
    by (auto simp: distinct_map_filter)
  from exact_match_splits[OF d0, of cfg] s1 have p1: "splits_pools (g1, e1, r1) es rs" by simp
  from keyword_match_splits[OF d1, of cfg 2] s2 have p2: "splits_pools (g2, e2, r2) e1 r1" by simp
  from fuzzy_match_splits[OF d2, of cfg tsr] s3 have p3: "splits_pools (g3, e3, r3) e2 r2" by simp
  from splits_pools_compose[OF p1 p2] have p12: "splits_pools (g1 @ g2, e2, r2) es rs" .
  from splits_pools_compose[OF p12 p3] have p123: "splits_pools (g1 @ g2 @ g3, e3, r3) es rs"
    by simp
  have run: "auto_match_all cfg tsr df = (g1 @ g2 @ g3, e3, r3)"
    using s1 s2 s3 by (simp add: auto_match_all_def Let_def es[symmetric] rs[symmetric])
  have "set es \<inter> set rs = {}" unfolding es rs by auto
  with p1 p2 p3 p12 p123 run show ?thesis by simp
qed

lemma cascade_s1: "exact_match Config
       (filter (\<lambda>t. transaction_type t = Expense) cascade_example)
       (filter (\<lambda>t. transaction_type t = Revenue) cascade_example) =
     ([exact_group (row 0 100 ''Acme Invoice 123'') (row 1 (- 100) ''acme invoice 123'')],
      [row 3 (- 150) ''Acme Corp payment A'', row 4 (- 100) ''Acme Corp payment B''],
      [row 2 250 ''Consulting fee Acme Corp'', row 5 80 ''Misc''])"
  by code_simp

lemma cascade_s2: "keyword_match Config
      [row 3 (- 150) ''Acme Corp payment A'', row 4 (- 100) ''Acme Corp payment B'']
      [row 2 250 ''Consulting fee Acme Corp'', row 5 80 ''Misc''] 2 =
     ([combo_group (row 2 250 ''Consulting fee Acme Corp'') 2
         [\<lparr> expense = row 3 (- 150) ''Acme Corp payment A'', keyword_score = 1 / 2 \<rparr>,
          \<lparr> expense = row 4 (- 100) ''Acme Corp payment B'', keyword_score = 1 / 2 \<rparr>]],
      [], [row 5 80 ''Misc''])"
  by code_simp

lemma cascade_s3: "fuzzy_match Config (\<lambda>a b. 0) [] [row 5 80 ''Misc''] = ([], [], [row 5 80 ''Misc''])"
  by code_simp

lemma cascade_ids: "distinct (map original_index cascade_example)"
  by (simp add: cascade_example_def row_def)

theorem cascade_partition_witness:
  "splits_pools (auto_match_all Config (\<lambda>a b. 0) cascade_example)
     (filter (\<lambda>t. transaction_type t = Expense) cascade_example)
     (filter (\<lambda>t. transaction_type t = Revenue) cascade_example) \<and>
   length (fst (auto_match_all Config (\<lambda>a b. 0) cascade_example)) = 2"
  using cascade_partition [OF cascade_ids refl refl cascade_s1 cascade_s2 cascade_s3]
  by simp

subsection \<open>Keyword stage\<close>

lemma find_best_keyword_ok:
  assumes best: "find_best_expense_combination cfg r
       (keyword_candidates cfg k (extract_keywords cfg (description r)) me es) = Some g"
  shows "keyword_group_ok cfg g"
proof -
  let ?pots = "keyword_candidates cfg k (extract_keywords cfg (description r)) me es"
  from find_best_Some[OF best] obtain combo where
    ne: "combo \<noteq> []" and len: "length combo \<le> 5" and sub: "mset combo \<subseteq># mset ?pots"
    and rev: "revenue g = Some r" and ex: "expenses g = map expense combo"
    and conf: "confidence g = sum_list (map keyword_score combo) / of_nat (length combo)"
    and kind: "match_type g = (if length combo = 1 then ''fuzzy_single''
                           else ''fuzzy_multiple_'' @ str_nat (length combo))"
    by blast
  from sub have "set combo \<subseteq> set ?pots" by (metis set_mset_mono set_mset_mset)
  then have "\<forall>c\<in>set combo. keyword_score c = keyword_overlap cfg r (expense c)"
    by (auto dest: keyword_candidates_score)
  then have "map keyword_score combo = map (keyword_overlap cfg r) (map expense combo)"
    by simp
  with ne len rev ex conf kind show ?thesis
    by (simp add: keyword_group_ok_def)
qed

lemma keyword_loop_groups:
  "keyword_loop cfg k es rs (ms, me, mr) = (ms', me', mr') \<Longrightarrow>
   list_all (keyword_group_ok cfg) ms \<Longrightarrow> list_all (keyword_group_ok cfg) ms'"
proof (induction rs arbitrary: ms me mr)
  case Nil
  then show ?case by simp
next
  case (Cons r rs)
  let ?pots = "keyword_candidates cfg k (extract_keywords cfg (description r)) me es"
  show ?case
  proof (cases "find_best_expense_combination cfg r ?pots")
    case None
    with Cons.prems(1) have "keyword_loop cfg k es rs (ms, me, mr) = (ms', me', mr')"
      by (simp add: Let_def split: if_splits)
    from Cons.IH[OF this Cons.prems(2)] show ?thesis .
  next
    case (Some g)
    show ?thesis
    proof (cases "card (extract_keywords cfg (description r)) < k \<or> ?pots = []")
      case True
      with Cons.prems(1) have "keyword_loop cfg k es rs (ms, me, mr) = (ms', me', mr')"
        by (cases "card (extract_keywords cfg (description r)) < k") (simp_all add: Let_def)
      from Cons.IH[OF this Cons.prems(2)] show ?thesis .
    next
      case False
      with Cons.prems(1) Some have run: "keyword_loop cfg k es rs
          (ms @ [g], me \<union> set (map original_index (expenses g)), insert (original_index r) mr)
           = (ms', me', mr')"
        by (simp add: Let_def)
      from find_best_keyword_ok[OF Some] Cons.prems(2)
      have "list_all (keyword_group_ok cfg) (ms @ [g])" by simp
      from Cons.IH[OF run this] show ?thesis .
    qed
  qed
qed

text \<open>
  C6 (as amended).  Every group committed by the Keyword stage has a revenue and between
  one and five expenses; its kind is \<open>fuzzy_single\<close> when it has one expense and
  \<open>fuzzy_multiple_n\<close> when it has \<open>n\<close> expenses, never a name that starts with
  \<open>keyword\<close>; and its confidence is the arithmetic mean of the keyword-overlap
  fractions of its expenses with its revenue.
\<close>

theorem keyword_match_kind_confidence:
  assumes "g \<in> set (fst (keyword_match cfg es rs min_keywords))"
  shows "\<exists>r. revenue g = Some r \<and> expenses g \<noteq> [] \<and> length (expenses g) \<le> 5 \<and>
           confidence g = sum_list (map (keyword_overlap cfg r) (expenses g))
                            / of_nat (length (expenses g)) \<and>
           match_type g = (if length (expenses g) = 1 then ''fuzzy_single''
                           else ''fuzzy_multiple_'' @ str_nat (length (expenses g))) \<and>
           \<not> prefix ''keyword'' (match_type g)"
proof -
  obtain ms me mr where run: "keyword_loop cfg min_keywords es rs ([], {}, {}) = (ms, me, mr)"
    by (cases "keyword_loop cfg min_keywords es rs ([], {}, {})")
  from keyword_loop_groups[OF run] have "list_all (keyword_group_ok cfg) ms" by simp
  moreover from assms run have "g \<in> set ms" by (simp add: keyword_match_def)
  ultimately have ok: "keyword_group_ok cfg g" by (simp add: list_all_iff)
  then obtain r where r: "revenue g = Some r"
    by (auto simp: keyword_group_ok_def split: option.splits)
  from ok r have "\<not> prefix ''keyword'' (match_type g)"
    by (auto simp: keyword_group_ok_def split: if_splits)
  with ok r show ?thesis
    by (auto simp: keyword_group_ok_def)
qed

lemma scenario_b_run:
  "keyword_match Config [scenario_b_expense1, scenario_b_expense2] [scenario_b_revenue] 2 =
     ([combo_group scenario_b_revenue 2
         [\<lparr> expense = scenario_b_expense1, keyword_score = 1 / 2 \<rparr>,
          \<lparr> expense = scenario_b_expense2, keyword_score = 1 / 2 \<rparr>]], [], [])"
  by code_simp

text \<open>
  C6 as stated fails on the kind: on the revenue 250.00 "Consulting fee Acme Corp" and the
  expenses -150.00 "Acme Corp payment A" and -100.00 "Acme Corp payment B" the Keyword stage
  commits one group, and its kind is \<open>fuzzy_multiple_2\<close>.
\<close>

theorem keyword_match_kind_counterexample:
  "length (fst (keyword_match Config [scenario_b_expense1, scenario_b_expense2]
                  [scenario_b_revenue] 2)) = 1 \<and>
   match_type (hd (fst (keyword_match Config [scenario_b_expense1, scenario_b_expense2]
                  [scenario_b_revenue] 2))) = ''fuzzy_multiple_2'' \<and>
   \<not> prefix ''keyword'' (match_type (hd (fst (keyword_match Config
          [scenario_b_expense1, scenario_b_expense2] [scenario_b_revenue] 2))))"
  by (simp add: scenario_b_run combo_group_def digits_def)

theorem keyword_match_kind_confidence_witness:
  "combo_group scenario_b_revenue 2
         [\<lparr> expense = scenario_b_expense1, keyword_score = 1 / 2 \<rparr>,
          \<lparr> expense = scenario_b_expense2, keyword_score = 1 / 2 \<rparr>]
     \<in> set (fst (keyword_match Config [scenario_b_expense1, scenario_b_expense2]
                  [scenario_b_revenue] 2)) \<and>
   confidence (combo_group scenario_b_revenue 2
         [\<lparr> expense = scenario_b_expense1, keyword_score = 1 / 2 \<rparr>,
          \<lparr> expense = scenario_b_expense2, keyword_score = 1 / 2 \<rparr>])
     = (keyword_overlap Config scenario_b_revenue scenario_b_expense1
        + keyword_overlap Config scenario_b_revenue scenario_b_expense2) / 2"
proof -
  have mem: "combo_group scenario_b_revenue 2
         [\<lparr> expense = scenario_b_expense1, keyword_score = 1 / 2 \<rparr>,
          \<lparr> expense = scenario_b_expense2, keyword_score = 1 / 2 \<rparr>]
     \<in> set (fst (keyword_match Config [scenario_b_expense1, scenario_b_expense2]
                  [scenario_b_revenue] 2))"
    by (simp add: scenario_b_run)
  from keyword_match_kind_confidence [OF mem] mem show ?thesis
    by (simp add: combo_group_def)
qed

subsection \<open>Review-candidate ranker\<close>











subsection \<open>Manual confirmation\<close>

lemma filter_head_sat: "filter P xs = y # ys \<Longrightarrow> P y \<and> y \<in> set xs"
proof -
  assume "filter P xs = y # ys"
  then have "y \<in> set (filter P xs)" by simp
  then show ?thesis by simp
qed

lemma confirm_match_reject:
  "revenue_index = None \<or> revenue_index = Some 0 \<or> expense_indices = [] \<Longrightarrow>
   confirm_match cfg tsr sess revenue_index expense_indices = (Invalid_match_data, sess)"
  by (simp add: confirm_match_def)

text \<open>The request passes the input check, the session holds the pools, and the revenue is found.\<close>

lemma confirm_match_validated:
  assumes "rid \<noteq> 0" "expense_indices \<noteq> []"
    and "filter (\<lambda>t. Some (original_index t) = Some rid) (unmatched_revenues s) = r # rest"
  shows "confirm_match cfg tsr (Some s) (Some rid) expense_indices =
     (let selected = filter (\<lambda>t. original_index t \<in> set expense_indices) (unmatched_expenses s);
          new_match = manual_group r selected
      in if \<not> fst (validate_match cfg new_match)
         then (Invalid_match (snd (validate_match cfg new_match)), Some s)
         else
           let ues = filter (\<lambda>t. original_index t \<notin> set expense_indices) (unmatched_expenses s);
               urs = filter (\<lambda>t. Some (original_index t) \<noteq> Some rid) (unmatched_revenues s);
               ris = generate_review_items cfg tsr urs ues
           in (Match_confirmed (length ris),
               Some \<lparr> updated_df = assign_match_groups (updated_df s) (matches s @ [new_match]),
                      matches = matches s @ [new_match], unmatched_expenses = ues,
                      unmatched_revenues = urs, review_items = ris \<rparr>))"
  using assms by (simp add: confirm_match_def Let_def split: prod.splits)


lemma confirm_match_success_revenue:
  assumes "confirm_match cfg tsr sess revenue_index expense_indices = (Match_confirmed n, sess')"
  shows "revenue_index \<noteq> None \<and> revenue_index \<noteq> Some 0 \<and> expense_indices \<noteq> [] \<and>
         (\<exists>s s' r. sess = Some s \<and> sess' = Some s' \<and> Some (original_index r) = revenue_index \<and>
            original_index r \<noteq> 0 \<and> r \<in> set (unmatched_revenues s) \<and>
            matches s' = matches s @
              [manual_group r (filter (\<lambda>t. original_index t \<in> set expense_indices)
                                 (unmatched_expenses s))])"
proof -
  from assms have a: "revenue_index \<noteq> None" "revenue_index \<noteq> Some 0" "expense_indices \<noteq> []"
    by (auto simp: confirm_match_def split: if_splits)
  then obtain rid where rid: "revenue_index = Some rid" "rid \<noteq> 0" by auto
  from assms a obtain s where s: "sess = Some s"
    by (cases sess) (auto simp: confirm_match_def)
  from assms a s rid obtain r rest where
    f: "filter (\<lambda>t. Some (original_index t) = Some rid) (unmatched_revenues s) = r # rest"
    by (cases "filter (\<lambda>t. Some (original_index t) = Some rid) (unmatched_revenues s)")
       (auto simp: confirm_match_def)
  from filter_head_sat[OF f] have r: "Some (original_index r) = Some rid"
    and rin: "r \<in> set (unmatched_revenues s)" by simp_all
  from assms[unfolded s rid(1) confirm_match_validated[OF rid(2) a(3) f]]
  obtain s' where "sess' = Some s'" "matches s' = matches s @
              [manual_group r (filter (\<lambda>t. original_index t \<in> set expense_indices)
                                 (unmatched_expenses s))]"
    by (auto simp: Let_def split: if_splits)
  with a s rid r rin show ?thesis by auto
qed




text \<open>
  C10.  A confirmation request whose revenue id is 0 (or absent) or whose list of expense ids
  is empty is answered with the invalid-input answer and the session unchanged, whatever
  the session holds, before any pool is read; hence the revenue of a confirmed manual match
  never has the original index 0.
\<close>

theorem confirm_match_index_zero:
  "confirm_match cfg tsr sess (Some 0) expense_indices = (Invalid_match_data, sess) \<and>
   confirm_match cfg tsr sess None expense_indices = (Invalid_match_data, sess) \<and>
   confirm_match cfg tsr sess revenue_index [] = (Invalid_match_data, sess) \<and>
   (confirm_match cfg tsr sess revenue_index expense_indices = (Match_confirmed n, sess') \<longrightarrow>
      revenue_index \<noteq> Some 0 \<and>
      (\<exists>s s' r. sess = Some s \<and> sess' = Some s' \<and> Some (original_index r) = revenue_index \<and>
         original_index r \<noteq> 0 \<and> r \<in> set (unmatched_revenues s) \<and>
         matches s' = matches s @
           [manual_group r (filter (\<lambda>t. original_index t \<in> set expense_indices)
                              (unmatched_expenses s))]))"
proof -
  have a: "confirm_match cfg tsr sess (Some 0) expense_indices = (Invalid_match_data, sess)"
    by (rule confirm_match_reject) simp
  have b: "confirm_match cfg tsr sess None expense_indices = (Invalid_match_data, sess)"
    by (rule confirm_match_reject) simp
  have c: "confirm_match cfg tsr sess revenue_index [] = (Invalid_match_data, sess)"
    by (rule confirm_match_reject) simp
  have d: "confirm_match cfg tsr sess revenue_index expense_indices = (Match_confirmed n, sess') \<longrightarrow>
      revenue_index \<noteq> Some 0 \<and>
      (\<exists>s s' r. sess = Some s \<and> sess' = Some s' \<and> Some (original_index r) = revenue_index \<and>
         original_index r \<noteq> 0 \<and> r \<in> set (unmatched_revenues s) \<and>
         matches s' = matches s @
           [manual_group r (filter (\<lambda>t. original_index t \<in> set expense_indices)
                              (unmatched_expenses s))])"
  proof
    assume "confirm_match cfg tsr sess revenue_index expense_indices = (Match_confirmed n, sess')"
    from confirm_match_success_revenue[OF this]
    show "revenue_index \<noteq> Some 0 \<and>
      (\<exists>s s' r. sess = Some s \<and> sess' = Some s' \<and> Some (original_index r) = revenue_index \<and>
         original_index r \<noteq> 0 \<and> r \<in> set (unmatched_revenues s) \<and>
         matches s' = matches s @
           [manual_group r (filter (\<lambda>t. original_index t \<in> set expense_indices)
                              (unmatched_expenses s))])"
      by (elim conjE, intro conjI) assumption+
  qed
  from a b c d show ?thesis by - (intro conjI, assumption+)
qed

theorem confirm_match_index_zero_witness:
  "scenario_a_revenue \<in> set (unmatched_revenues index_zero_session) \<and>
   original_index scenario_a_revenue = 0 \<and>
   fst (validate_match Config (manual_group scenario_a_revenue [scenario_a_expense])) \<and>
   confirm_match Config (\<lambda>a b. 0) (Some index_zero_session) (Some 0) [1]
     = (Invalid_match_data, Some index_zero_session)"
  using confirm_match_index_zero [of Config "\<lambda>a b. 0" "Some index_zero_session" "[1]"]
  by (simp add: index_zero_session_def open_session_def scenario_a_revenue_def
        scenario_a_expense_def row_def validate_match_def manual_group_def is_balanced_def
        calculate_match_balance_def Config_def)

subsection \<open>Exact subset sum\<close>



























end
